theory Spec2Isabelle
  imports Complex_Main "HOL-Library.Sublist"
begin

section \<open>The rate limiter of \<^verbatim>\<open>scripts/api_ratelimiter.py\<close>\<close>

text \<open>
  The class \<^verbatim>\<open>APIRateLimiter\<close> is embedded as a record of its attributes and one HOL
  function per method, with the object passed in and returned. Conventions:
  \<^item> \<^verbatim>\<open>time.time()\<close> returns a Python float; the embedding uses \<^typ>\<open>real\<close> and every
    reading of the clock is an explicit argument of the function that reads it
    (\<^verbatim>\<open>check_rate_limit\<close> reads it twice: once inside \<^verbatim>\<open>_clean_old_entries\<close>, once itself);
  \<^item> token counts and ceilings are Python ints, here \<^typ>\<open>int\<close>;
  \<^item> a \<^verbatim>\<open>deque\<close> is a list with its left end at the head: \<^verbatim>\<open>popleft\<close> removes the
    head, \<^verbatim>\<open>append\<close> adds at the end, \<^verbatim>\<open>q[0]\<close> on an empty deque raises
    \<^verbatim>\<open>IndexError\<close>;
  \<^item> the re-entrant lock is not part of the state: a method whose body is inside
    \<^verbatim>\<open>with self.lock\<close> is one step; the section on concurrent callers cuts
    \<^verbatim>\<open>wait_if_needed\<close>, which takes no lock itself, into its steps.
\<close>

subsection \<open>Data\<close>

datatype py_error = IndexError

record limiter =
  name :: string
  requests_per_minute :: int
  tokens_per_minute :: int
  requests_per_day :: int
  tokens_per_day :: int
  minute_requests :: "real list"
  minute_tokens :: "(real \<times> int) list"
  day_requests :: "real list"
  day_tokens :: "(real \<times> int) list"
  minute_window :: real
  day_window :: real
  total_requests :: int
  total_tokens :: int
  total_wait_time :: real
  rate_limit_hits :: int

text \<open>\<^verbatim>\<open>__init__\<close>: no argument is checked; every value is stored as given.\<close>

definition init :: "string \<Rightarrow> int \<Rightarrow> int \<Rightarrow> int \<Rightarrow> int \<Rightarrow> limiter" where
  "init nm rpm tpm rpd tpd =
     \<lparr> name = nm,
       requests_per_minute = rpm,
       tokens_per_minute = tpm,
       requests_per_day = rpd,
       tokens_per_day = tpd,
       minute_requests = [],
       minute_tokens = [],
       day_requests = [],
       day_tokens = [],
       minute_window = 60,
       day_window = 86400,
       total_requests = 0,
       total_tokens = 0,
       total_wait_time = 0,
       rate_limit_hits = 0 \<rparr>"

subsection \<open>Window pruning\<close>

text \<open>
  The loop \<^verbatim>\<open>while q and now - q[0] > window: q.popleft()\<close>, for a queue of timestamps
  and for a queue of (timestamp, tokens) pairs.
\<close>

fun prune_requests :: "real \<Rightarrow> real \<Rightarrow> real list \<Rightarrow> real list" where
  "prune_requests now window [] = []"
| "prune_requests now window (t # q) =
     (if now - t > window then prune_requests now window q else t # q)"

fun prune_tokens :: "real \<Rightarrow> real \<Rightarrow> (real \<times> int) list \<Rightarrow> (real \<times> int) list" where
  "prune_tokens now window [] = []"
| "prune_tokens now window (e # q) =
     (if now - fst e > window then prune_tokens now window q else e # q)"

definition clean_old_entries :: "real \<Rightarrow> limiter \<Rightarrow> limiter" where
  "clean_old_entries now s =
     s\<lparr> minute_requests := prune_requests now (minute_window s) (minute_requests s),
        minute_tokens := prune_tokens now (minute_window s) (minute_tokens s),
        day_requests := prune_requests now (day_window s) (day_requests s),
        day_tokens := prune_tokens now (day_window s) (day_tokens s) \<rparr>"

subsection \<open>Admission check\<close>

text \<open>\<^verbatim>\<open>sum(tokens for _, tokens in q)\<close>\<close>

definition sum_tokens :: "(real \<times> int) list \<Rightarrow> int" where
  "sum_tokens q = sum_list (map snd q)"

text \<open>
  \<^verbatim>\<open>check_rate_limit\<close>: \<open>now_clean\<close> is the clock as read by \<^verbatim>\<open>_clean_old_entries\<close>,
  \<open>now\<close> the reading taken after it. The result is the returned triple
  \<^verbatim>\<open>(can_proceed, wait_time_seconds, limit_type)\<close> or the exception raised, paired with
  the object as the call leaves it (the pruning has happened also when \<^verbatim>\<open>q[0]\<close> raises).
\<close>

definition check_rate_limit ::
  "real \<Rightarrow> real \<Rightarrow> int \<Rightarrow> limiter \<Rightarrow> (py_error + bool \<times> real \<times> string option) \<times> limiter" where
  "check_rate_limit now_clean now tokens_estimate s0 =
     (let s = clean_old_entries now_clean s0 in
      (if int (length (minute_requests s)) \<ge> requests_per_minute s then
         (case minute_requests s of
            [] \<Rightarrow> Inl IndexError
          | oldest # _ \<Rightarrow>
              Inr (False, max 0 (minute_window s - (now - oldest)), Some ''requests_per_minute''))
       else if sum_tokens (minute_tokens s) + tokens_estimate > tokens_per_minute s then
         (let oldest_token_time = (case minute_tokens s of [] \<Rightarrow> now | e # _ \<Rightarrow> fst e)
          in Inr (False, max 0 (minute_window s - (now - oldest_token_time)),
                  Some ''tokens_per_minute''))
       else if int (length (day_requests s)) \<ge> requests_per_day s then
         (case day_requests s of
            [] \<Rightarrow> Inl IndexError
          | oldest # _ \<Rightarrow>
              Inr (False, max 0 (day_window s - (now - oldest)), Some ''requests_per_day''))
       else if sum_tokens (day_tokens s) + tokens_estimate > tokens_per_day s then
         (let oldest_token_time = (case day_tokens s of [] \<Rightarrow> now | e # _ \<Rightarrow> fst e)
          in Inr (False, max 0 (day_window s - (now - oldest_token_time)),
                  Some ''tokens_per_day''))
       else Inr (True, 0, None),
       s))"

subsection \<open>Recording\<close>

definition record_request :: "real \<Rightarrow> int \<Rightarrow> limiter \<Rightarrow> limiter" where
  "record_request now tokens_used s =
     s\<lparr> minute_requests := minute_requests s @ [now],
        minute_tokens := minute_tokens s @ [(now, tokens_used)],
        day_requests := day_requests s @ [now],
        day_tokens := day_tokens s @ [(now, tokens_used)],
        total_requests := total_requests s + 1,
        total_tokens := total_tokens s + tokens_used \<rparr>"

subsection \<open>Blocking wait\<close>

text \<open>
  \<^verbatim>\<open>wait_if_needed\<close>: the \<^verbatim>\<open>while True\<close> loop may run for ever, so it is a partial
  function and not returning is the value \<open>None\<close>. \<open>clock i\<close> is the pair of clock readings
  of the \<open>i\<close>-th call of \<^verbatim>\<open>check_rate_limit\<close>; every \<^verbatim>\<open>time.sleep(d)\<close> is logged by
  appending \<open>d\<close> to the list \<open>slept\<close>, which is returned with the result.
\<close>

partial_function (option) wait_if_needed_loop ::
  "(nat \<Rightarrow> real \<times> real) \<Rightarrow> nat \<Rightarrow> int \<Rightarrow> limiter \<Rightarrow> real list
     \<Rightarrow> ((py_error + bool) \<times> limiter \<times> real list) option" where
  "wait_if_needed_loop clock i tokens_estimate s0 slept =
     (let max_wait_time = 30 in
      case check_rate_limit (fst (clock i)) (snd (clock i)) tokens_estimate s0 of
        (Inl e, s) \<Rightarrow> Some (Inl e, s, slept)
      | (Inr (can_proceed, wait_time, limit_type), s) \<Rightarrow>
          if can_proceed then Some (Inr True, s, slept)
          else if wait_time > max_wait_time then
            Some (Inr False, s\<lparr>rate_limit_hits := rate_limit_hits s + 1\<rparr>, slept)
          else
            wait_if_needed_loop clock (i + 1) tokens_estimate
              (s\<lparr>total_wait_time := total_wait_time s + wait_time,
                 rate_limit_hits := rate_limit_hits s + 1\<rparr>)
              (slept @ [wait_time]))"

definition wait_if_needed ::
  "(nat \<Rightarrow> real \<times> real) \<Rightarrow> int \<Rightarrow> limiter
     \<Rightarrow> ((py_error + bool) \<times> limiter \<times> real list) option" where
  "wait_if_needed clock tokens_estimate s = wait_if_needed_loop clock 0 tokens_estimate s []"

subsection \<open>Usage snapshot\<close>

text \<open>
  The dictionary returned by \<^verbatim>\<open>get_usage_stats\<close>, one field per key; the value of
  \<^verbatim>\<open>"timestamp"\<close> (\<^verbatim>\<open>datetime.now().isoformat()\<close>) is passed in.
\<close>

record usage_stats =
  stats_name :: string
  current_minute_requests :: nat
  current_minute_tokens :: int
  current_day_requests :: nat
  current_day_tokens :: int
  stats_total_requests :: int
  stats_total_tokens :: int
  stats_rate_limit_hits :: int
  stats_total_wait_time :: real
  minute_limit_percentage :: real
  day_limit_percentage :: real
  timestamp :: string

definition get_usage_stats :: "real \<Rightarrow> string \<Rightarrow> limiter \<Rightarrow> usage_stats \<times> limiter" where
  "get_usage_stats now stamp s0 =
     (let s = clean_old_entries now s0 in
      (\<lparr> stats_name = name s,
         current_minute_requests = length (minute_requests s),
         current_minute_tokens = sum_tokens (minute_tokens s),
         current_day_requests = length (day_requests s),
         current_day_tokens = sum_tokens (day_tokens s),
         stats_total_requests = total_requests s,
         stats_total_tokens = total_tokens s,
         stats_rate_limit_hits = rate_limit_hits s,
         stats_total_wait_time = total_wait_time s,
         minute_limit_percentage =
           (if requests_per_minute s > 0
            then (real (length (minute_requests s)) / real_of_int (requests_per_minute s)) * 100
            else 0),
         day_limit_percentage =
           (if requests_per_day s > 0
            then (real (length (day_requests s)) / real_of_int (requests_per_day s)) * 100
            else 0),
         timestamp = stamp \<rparr>,
       s))"

declare wait_if_needed_loop.simps [code]

subsection \<open>Histories of calls\<close>

text \<open>
  A client of one limiter: a finite sequence of calls of the three methods that take the
  lock, each with the clock readings it makes. \<open>run\<close> applies them in order and keeps the
  object; \<open>recorded\<close> is the list of (timestamp, tokens) pairs the
  \<^verbatim>\<open>record_request\<close> calls of the history have appended.
\<close>

datatype call =
  RecordRequest real int
| CheckRateLimit real real int
| GetUsageStats real string

fun apply_call :: "call \<Rightarrow> limiter \<Rightarrow> limiter" where
  "apply_call (RecordRequest now tokens_used) s = record_request now tokens_used s"
| "apply_call (CheckRateLimit now_clean now tokens_estimate) s =
     snd (check_rate_limit now_clean now tokens_estimate s)"
| "apply_call (GetUsageStats now stamp) s = snd (get_usage_stats now stamp s)"

fun clock_readings :: "call \<Rightarrow> real list" where
  "clock_readings (RecordRequest now tokens_used) = [now]"
| "clock_readings (CheckRateLimit now_clean now tokens_estimate) = [now_clean, now]"
| "clock_readings (GetUsageStats now stamp) = [now]"

fun recorded :: "call list \<Rightarrow> (real \<times> int) list" where
  "recorded [] = []"
| "recorded (RecordRequest now tokens_used # cs) = (now, tokens_used) # recorded cs"
| "recorded (CheckRateLimit now_clean now tokens_estimate # cs) = recorded cs"
| "recorded (GetUsageStats now stamp # cs) = recorded cs"

definition run :: "call list \<Rightarrow> limiter \<Rightarrow> limiter" where
  "run cs s = fold apply_call cs s"

subsection \<open>Predicates on the state\<close>

text \<open>
  \<open>kept T w f every q\<close>: the queue \<open>q\<close> is what is left of \<open>every\<close> after removing a
  prefix of entries that were older than the window \<open>w\<close> at time \<open>T\<close> already (\<open>f\<close> reads
  the timestamp of an entry). \<open>trail T cs s\<close> says so of the four queues of \<open>s\<close> and the
  entries recorded by the history \<open>cs\<close>, none of them later than \<open>T\<close>.
\<close>

definition kept :: "real \<Rightarrow> real \<Rightarrow> ('a \<Rightarrow> real) \<Rightarrow> 'a list \<Rightarrow> 'a list \<Rightarrow> bool" where
  "kept T w f every q \<longleftrightarrow> (\<exists>pre. every = pre @ q \<and> (\<forall>x\<in>set pre. T - f x > w))"

definition trail :: "real \<Rightarrow> call list \<Rightarrow> limiter \<Rightarrow> bool" where
  "trail T cs s \<longleftrightarrow>
     minute_window s = 60 \<and> day_window s = 86400 \<and>
     sorted (map fst (recorded cs)) \<and> (\<forall>e\<in>set (recorded cs). fst e \<le> T) \<and>
     kept T 60 (\<lambda>t. t) (map fst (recorded cs)) (minute_requests s) \<and>
     kept T 60 fst (recorded cs) (minute_tokens s) \<and>
     kept T 86400 (\<lambda>t. t) (map fst (recorded cs)) (day_requests s) \<and>
     kept T 86400 fst (recorded cs) (day_tokens s)"

text \<open>
  \<open>logs_inv\<close>: each minute queue is a suffix of its day queue, and the minute window is
  not longer than the day window. \<open>tokens_nonneg\<close>: no recorded token count is negative
  (\<^verbatim>\<open>record_request\<close> is documented to receive the number of tokens used; the one caller,
  \<^verbatim>\<open>explain_code\<close>, passes a sum of two \<^verbatim>\<open>len(...)\<close>).
\<close>

definition logs_inv :: "limiter \<Rightarrow> bool" where
  "logs_inv s \<longleftrightarrow>
     suffix (minute_requests s) (day_requests s) \<and>
     suffix (minute_tokens s) (day_tokens s) \<and>
     minute_window s \<le> day_window s"

definition tokens_nonneg :: "limiter \<Rightarrow> bool" where
  "tokens_nonneg s \<longleftrightarrow> (\<forall>e\<in>set (day_tokens s). 0 \<le> snd e)"

subsection \<open>Concurrent callers of \<^verbatim>\<open>wait_if_needed\<close>\<close>

text \<open>
  \<^verbatim>\<open>wait_if_needed\<close> (lines 156 to 171) cut at the places where another thread can run.
  A program point is named after the line about to be executed and carries the locals that
  are live there. Line 159, the call of \<^verbatim>\<open>check_rate_limit\<close>, is one step: the whole body
  of that method is inside \<^verbatim>\<open>with self.lock\<close>. Each \<^verbatim>\<open>self.x += v\<close> of lines 165, 169 and
  170 is a read of the attribute and then a write of the sum, with no \<^verbatim>\<open>with self.lock\<close>
  around it; the value read is kept in the program point. A thread is its program point,
  the number of checks it has made (the index into its clock) and the sleeps it has made.
\<close>

datatype field =
  Minute_requests | Minute_tokens | Day_requests | Day_tokens
| Total_requests | Total_tokens | Total_wait_time | Rate_limit_hits

datatype pc =
  Line159
| Line165_read
| Line165_write int
| Line169_read real
| Line169_write real real
| Line170_read real
| Line170_write real int
| Line171 real
| Returned bool
| Raised py_error

fun thread_step ::
  "(nat \<Rightarrow> real \<times> real) \<Rightarrow> int \<Rightarrow> pc \<times> nat \<times> real list \<Rightarrow> limiter
     \<Rightarrow> (pc \<times> nat \<times> real list) \<times> limiter" where
  "thread_step clock tokens_estimate (Line159, i, slept) s0 =
     (let max_wait_time = 30 in
      case check_rate_limit (fst (clock i)) (snd (clock i)) tokens_estimate s0 of
        (Inl e, s) \<Rightarrow> ((Raised e, i, slept), s)
      | (Inr (can_proceed, wait_time, limit_type), s) \<Rightarrow>
          if can_proceed then ((Returned True, i, slept), s)
          else if wait_time > max_wait_time then ((Line165_read, i, slept), s)
          else ((Line169_read wait_time, i, slept), s))"
| "thread_step clock tokens_estimate (Line165_read, i, slept) s =
     ((Line165_write (rate_limit_hits s), i, slept), s)"
| "thread_step clock tokens_estimate (Line165_write v, i, slept) s =
     ((Returned False, i, slept), s\<lparr>rate_limit_hits := v + 1\<rparr>)"
| "thread_step clock tokens_estimate (Line169_read wait_time, i, slept) s =
     ((Line169_write wait_time (total_wait_time s), i, slept), s)"
| "thread_step clock tokens_estimate (Line169_write wait_time v, i, slept) s =
     ((Line170_read wait_time, i, slept), s\<lparr>total_wait_time := v + wait_time\<rparr>)"
| "thread_step clock tokens_estimate (Line170_read wait_time, i, slept) s =
     ((Line170_write wait_time (rate_limit_hits s), i, slept), s)"
| "thread_step clock tokens_estimate (Line170_write wait_time v, i, slept) s =
     ((Line171 wait_time, i, slept), s\<lparr>rate_limit_hits := v + 1\<rparr>)"
| "thread_step clock tokens_estimate (Line171 wait_time, i, slept) s =
     ((Line159, i + 1, slept @ [wait_time]), s)"
| "thread_step clock tokens_estimate (Returned b, i, slept) s = ((Returned b, i, slept), s)"
| "thread_step clock tokens_estimate (Raised e, i, slept) s = ((Raised e, i, slept), s)"

text \<open>
  \<open>holds_lock p\<close>: the step at \<open>p\<close> runs inside \<^verbatim>\<open>with self.lock\<close>. \<open>touches p\<close>: the
  queues and counters the step at \<open>p\<close> reads or writes. A step is \<open>unguarded\<close> when it
  touches one of them without the lock.
\<close>

fun holds_lock :: "pc \<Rightarrow> bool" where
  "holds_lock Line159 = True"
| "holds_lock Line165_read = False"
| "holds_lock (Line165_write v) = False"
| "holds_lock (Line169_read wait_time) = False"
| "holds_lock (Line169_write wait_time v) = False"
| "holds_lock (Line170_read wait_time) = False"
| "holds_lock (Line170_write wait_time v) = False"
| "holds_lock (Line171 wait_time) = False"
| "holds_lock (Returned b) = False"
| "holds_lock (Raised e) = False"

fun touches :: "pc \<Rightarrow> field list" where
  "touches Line159 = [Minute_requests, Minute_tokens, Day_requests, Day_tokens]"
| "touches Line165_read = [Rate_limit_hits]"
| "touches (Line165_write v) = [Rate_limit_hits]"
| "touches (Line169_read wait_time) = [Total_wait_time]"
| "touches (Line169_write wait_time v) = [Total_wait_time]"
| "touches (Line170_read wait_time) = [Rate_limit_hits]"
| "touches (Line170_write wait_time v) = [Rate_limit_hits]"
| "touches (Line171 wait_time) = []"
| "touches (Returned b) = []"
| "touches (Raised e) = []"

definition unguarded :: "pc \<Rightarrow> bool" where
  "unguarded p \<longleftrightarrow> touches p \<noteq> [] \<and> \<not> holds_lock p"

text \<open>
  Several threads on one limiter, each in a call of \<^verbatim>\<open>wait_if_needed\<close> with its own clock
  and estimate. A schedule is the list of the threads that make the next step, in order;
  \<open>schedule_trace\<close> lists the steps made and \<open>progress\<close> where each thread stands.
\<close>

type_synonym waiter = "(nat \<Rightarrow> real \<times> real) \<times> int \<times> (pc \<times> nat \<times> real list)"

definition start_wait :: "(nat \<Rightarrow> real \<times> real) \<Rightarrow> int \<Rightarrow> waiter" where
  "start_wait clock tokens_estimate = (clock, tokens_estimate, (Line159, 0, []))"

fun sched_step :: "nat \<Rightarrow> waiter list \<times> limiter \<Rightarrow> waiter list \<times> limiter" where
  "sched_step t (ws, s) =
     (if t < length ws then
        (case ws ! t of (clock, tokens_estimate, th) \<Rightarrow>
           (case thread_step clock tokens_estimate th s of
              (th', s') \<Rightarrow> (ws[t := (clock, tokens_estimate, th')], s')))
      else (ws, s))"

definition run_schedule :: "nat list \<Rightarrow> waiter list \<times> limiter \<Rightarrow> waiter list \<times> limiter" where
  "run_schedule sched cfg = fold sched_step sched cfg"

fun schedule_trace :: "nat list \<Rightarrow> waiter list \<times> limiter \<Rightarrow> (nat \<times> pc) list" where
  "schedule_trace [] cfg = []"
| "schedule_trace (t # ts) cfg =
     (if t < length (fst cfg) then [(t, fst (snd (snd (fst cfg ! t))))] else [])
       @ schedule_trace ts (sched_step t cfg)"

definition progress :: "waiter list \<times> limiter \<Rightarrow> (pc \<times> nat \<times> real list) list" where
  "progress cfg = map (\<lambda>w. snd (snd w)) (fst cfg)"

text \<open>
  \<open>continuation clock tokens_estimate th s\<close>: what the call returns when the thread \<open>th\<close>
  goes on alone from the state \<open>s\<close>, in terms of the loop of \<^verbatim>\<open>wait_if_needed\<close>;
  \<open>finished\<close>: the call has returned or raised.
\<close>

fun continuation ::
  "(nat \<Rightarrow> real \<times> real) \<Rightarrow> int \<Rightarrow> pc \<times> nat \<times> real list \<Rightarrow> limiter
     \<Rightarrow> ((py_error + bool) \<times> limiter \<times> real list) option" where
  "continuation clock tokens_estimate (Line159, i, slept) s =
     wait_if_needed_loop clock i tokens_estimate s slept"
| "continuation clock tokens_estimate (Line165_read, i, slept) s =
     Some (Inr False, s\<lparr>rate_limit_hits := rate_limit_hits s + 1\<rparr>, slept)"
| "continuation clock tokens_estimate (Line165_write v, i, slept) s =
     Some (Inr False, s\<lparr>rate_limit_hits := v + 1\<rparr>, slept)"
| "continuation clock tokens_estimate (Line169_read wait_time, i, slept) s =
     wait_if_needed_loop clock (i + 1) tokens_estimate
       (s\<lparr>total_wait_time := total_wait_time s + wait_time,
          rate_limit_hits := rate_limit_hits s + 1\<rparr>) (slept @ [wait_time])"
| "continuation clock tokens_estimate (Line169_write wait_time v, i, slept) s =
     wait_if_needed_loop clock (i + 1) tokens_estimate
       (s\<lparr>total_wait_time := v + wait_time,
          rate_limit_hits := rate_limit_hits s + 1\<rparr>) (slept @ [wait_time])"
| "continuation clock tokens_estimate (Line170_read wait_time, i, slept) s =
     wait_if_needed_loop clock (i + 1) tokens_estimate
       (s\<lparr>rate_limit_hits := rate_limit_hits s + 1\<rparr>) (slept @ [wait_time])"
| "continuation clock tokens_estimate (Line170_write wait_time v, i, slept) s =
     wait_if_needed_loop clock (i + 1) tokens_estimate
       (s\<lparr>rate_limit_hits := v + 1\<rparr>) (slept @ [wait_time])"
| "continuation clock tokens_estimate (Line171 wait_time, i, slept) s =
     wait_if_needed_loop clock (i + 1) tokens_estimate s (slept @ [wait_time])"
| "continuation clock tokens_estimate (Returned b, i, slept) s = Some (Inr b, s, slept)"
| "continuation clock tokens_estimate (Raised e, i, slept) s = Some (Inl e, s, slept)"

fun finished :: "pc \<Rightarrow> bool" where
  "finished (Returned b) = True"
| "finished (Raised e) = True"
| "finished Line159 = False"
| "finished Line165_read = False"
| "finished (Line165_write v) = False"
| "finished (Line169_read wait_time) = False"
| "finished (Line169_write wait_time v) = False"
| "finished (Line170_read wait_time) = False"
| "finished (Line170_write wait_time v) = False"
| "finished (Line171 wait_time) = False"

section \<open>Basic facts\<close>

lemma prune_requests_dropWhile:
  "prune_requests now w q = dropWhile (\<lambda>t. now - t > w) q"
  by (induction q) simp_all

lemma prune_tokens_dropWhile:
  "prune_tokens now w q = dropWhile (\<lambda>e. now - fst e > w) q"
  by (induction q) simp_all

lemma suffix_prune_requests: "suffix (prune_requests now w q) q"
  by (simp add: prune_requests_dropWhile suffix_dropWhile)

lemma suffix_prune_tokens: "suffix (prune_tokens now w q) q"
  by (simp add: prune_tokens_dropWhile suffix_dropWhile)

text \<open>Pruning writes the four queues and nothing else.\<close>

lemma clean_old_entries_frame:
  "name (clean_old_entries now s) = name s"
  "requests_per_minute (clean_old_entries now s) = requests_per_minute s"
  "tokens_per_minute (clean_old_entries now s) = tokens_per_minute s"
  "requests_per_day (clean_old_entries now s) = requests_per_day s"
  "tokens_per_day (clean_old_entries now s) = tokens_per_day s"
  "minute_window (clean_old_entries now s) = minute_window s"
  "day_window (clean_old_entries now s) = day_window s"
  "total_requests (clean_old_entries now s) = total_requests s"
  "total_tokens (clean_old_entries now s) = total_tokens s"
  "total_wait_time (clean_old_entries now s) = total_wait_time s"
  "rate_limit_hits (clean_old_entries now s) = rate_limit_hits s"
  by (simp_all add: clean_old_entries_def)

lemma check_rate_limit_state:
  "snd (check_rate_limit now_clean now tokens_estimate s0) = clean_old_entries now_clean s0"
  by (simp add: check_rate_limit_def Let_def)

section \<open>Admission check\<close>

text \<open>
  Claim C1, as the code has it. When the minute-request gate lets the call through and
  the pruned minute-token sum plus the estimate strictly exceeds \<^verbatim>\<open>tokens_per_minute\<close>,
  \<^verbatim>\<open>check_rate_limit\<close> returns \<^verbatim>\<open>False\<close> with the kind \<^verbatim>\<open>"tokens_per_minute"\<close>; the wait
  is 60 - (now - oldest minute-token timestamp), floored at 0, when the pruned minute-token
  queue is not empty, and the whole window, 60, when it is empty (the code then takes
  \<^verbatim>\<open>now\<close> as the oldest timestamp).
\<close>

theorem minute_token_gate_wait:
  assumes "s = clean_old_entries now_clean s0"
    and "minute_window s0 = 60"
    and "int (length (minute_requests s)) < requests_per_minute s"
    and "sum_tokens (minute_tokens s) + tokens_estimate > tokens_per_minute s"
  shows "fst (check_rate_limit now_clean now tokens_estimate s0) =
           Inr (False,
                (case minute_tokens s of [] \<Rightarrow> 60 | e # _ \<Rightarrow> max 0 (60 - (now - fst e))),
                Some ''tokens_per_minute'')"
  using assms
  by (simp add: check_rate_limit_def Let_def clean_old_entries_frame split: list.splits)

text \<open>
  Two calls recorded at 0 and 20, the check made at 70 (pruning) and 75: the entry of time 0
  is pruned, the oldest one left is 20 and the wait is 60 - (75 - 20) = 5.
\<close>

theorem minute_token_gate_wait_witness:
  "minute_window (record_request 20 480 (record_request 0 10
       (init ''claude'' 20 500 10000 1000000))) = 60 \<and>
   minute_tokens (clean_old_entries 70 (record_request 20 480 (record_request 0 10
       (init ''claude'' 20 500 10000 1000000)))) = [(20, 480)] \<and>
   (480::int) + 30 > 500 \<and>
   fst (check_rate_limit 70 75 30 (record_request 20 480 (record_request 0 10
       (init ''claude'' 20 500 10000 1000000)))) =
     Inr (False, 5, Some ''tokens_per_minute'')"
  using minute_token_gate_wait
    [of "clean_old_entries 70 (record_request 20 480 (record_request 0 10
           (init ''claude'' 20 500 10000 1000000)))"
        70 "record_request 20 480 (record_request 0 10 (init ''claude'' 20 500 10000 1000000))"
        30 75]
  by (simp add: clean_old_entries_def record_request_def init_def sum_tokens_def)

text \<open>
  Claim C1 as written promises a wait of 0 when the minute-token queue is empty. A new
  limiter with \<^verbatim>\<open>tokens_per_minute=100\<close>, asked for 200 tokens: the queue is empty and the
  wait is 60.
\<close>

theorem minute_token_gate_empty_log_counterexample:
  "minute_tokens (snd (check_rate_limit 0 0 200 (init ''claude'' 20 100 10000 1000000))) = [] \<and>
   fst (check_rate_limit 0 0 200 (init ''claude'' 20 100 10000 1000000)) =
     Inr (False, 60, Some ''tokens_per_minute'') \<and>
   fst (check_rate_limit 0 0 200 (init ''claude'' 20 100 10000 1000000)) \<noteq>
     Inr (False, 0, Some ''tokens_per_minute'')"
  by (simp add: check_rate_limit_def clean_old_entries_def init_def sum_tokens_def)

text \<open>
  Claim C2 asks that a limiter with \<^verbatim>\<open>requests_per_minute=0\<close> answers every check with a
  rejection of kind \<^verbatim>\<open>"requests_per_minute"\<close> and never raises. On a new limiter the
  minute-request queue is empty, the test \<^verbatim>\<open>len(self.minute_requests) >= 0\<close> succeeds and
  \<^verbatim>\<open>self.minute_requests[0]\<close> raises \<^verbatim>\<open>IndexError\<close>, whatever the clock, the estimate and
  the other ceilings are.
\<close>

theorem zero_request_ceiling_raises:
  "fst (check_rate_limit now_clean now tokens_estimate (init nm 0 tpm rpd tpd)) = Inl IndexError"
  by (simp add: check_rate_limit_def clean_old_entries_def init_def)

text \<open>
  The token gate in general: when the two request gates and the day-token gate let the call
  through, it is admitted exactly when the pruned minute-token sum plus the estimate is at
  most the ceiling.
\<close>

lemma token_gate_boundary:
  assumes "s = clean_old_entries now_clean s0"
    and "int (length (minute_requests s)) < requests_per_minute s"
    and "int (length (day_requests s)) < requests_per_day s"
    and "sum_tokens (day_tokens s) + tokens_estimate \<le> tokens_per_day s"
  shows "fst (check_rate_limit now_clean now tokens_estimate s0) = Inr (True, 0, None)
           \<longleftrightarrow> sum_tokens (minute_tokens s) + tokens_estimate \<le> tokens_per_minute s"
  using assms by (simp add: check_rate_limit_def Let_def)

text \<open>
  Claim C3 (scenario C). A limiter with \<^verbatim>\<open>tokens_per_minute=500\<close> on which one call of 480
  tokens was recorded at time \<open>t\<close>, still inside the minute window when the check prunes,
  the other ceilings generous (more than one request per minute and per day, at least 500
  tokens per day): a check for 30 tokens is rejected with kind \<^verbatim>\<open>"tokens_per_minute"\<close>, a
  check for 20 tokens is admitted, and in general a check is admitted exactly when 480 plus
  the estimate is at most 500.
\<close>

theorem scenario_C_token_boundary:
  assumes "s0 = record_request t 480 (init nm rpm 500 rpd tpd)"
    and "now_clean - t \<le> 60"
    and "1 < rpm" and "1 < rpd" and "500 \<le> tpd"
  shows "fst (check_rate_limit now_clean now 30 s0) =
           Inr (False, max 0 (60 - (now - t)), Some ''tokens_per_minute'') \<and>
         fst (check_rate_limit now_clean now 20 s0) = Inr (True, 0, None) \<and>
         (\<forall>e. (fst (check_rate_limit now_clean now e s0) = Inr (True, 0, None))
                = (480 + e \<le> 500))"
  using assms
  by (auto simp: check_rate_limit_def clean_old_entries_def record_request_def init_def
      sum_tokens_def Let_def)

theorem scenario_C_token_boundary_witness:
  "(5::real) - 0 \<le> 60 \<and> (1::int) < 20 \<and> (1::int) < 10000 \<and> (500::int) \<le> 1000000 \<and>
   fst (check_rate_limit 5 5 30 (record_request 0 480 (init ''claude'' 20 500 10000 1000000))) =
     Inr (False, 55, Some ''tokens_per_minute'') \<and>
   fst (check_rate_limit 5 5 20 (record_request 0 480 (init ''claude'' 20 500 10000 1000000))) =
     Inr (True, 0, None)"
  using scenario_C_token_boundary
    [of "record_request 0 480 (init ''claude'' 20 500 10000 1000000)"
        0 "''claude''" 20 10000 1000000 5 5]
  by simp

text \<open>
  Claim C6. With the same object and the same clock readings, a check that admits an
  estimate admits every smaller one.
\<close>

theorem monotonic_admission:
  assumes "fst (check_rate_limit now_clean now e s) = Inr (True, w, k)" and "e' < e"
  shows "fst (check_rate_limit now_clean now e' s) = Inr (True, 0, None)"
  using assms
  by (auto simp: check_rate_limit_def Let_def split: if_splits list.splits)

theorem monotonic_admission_witness:
  "fst (check_rate_limit 5 5 20 (record_request 0 480 (init ''claude'' 20 500 10000 1000000))) =
     Inr (True, 0, None) \<and> (7::int) < 20 \<and>
   fst (check_rate_limit 5 5 7 (record_request 0 480 (init ''claude'' 20 500 10000 1000000))) =
     Inr (True, 0, None)"
proof -
  have a: "fst (check_rate_limit 5 5 20
                 (record_request 0 480 (init ''claude'' 20 500 10000 1000000))) =
             Inr (True, 0, None)"
    by (simp add: check_rate_limit_def clean_old_entries_def record_request_def init_def
        sum_tokens_def)
  have b: "(7::int) < 20" by simp
  show ?thesis using a b monotonic_admission [OF a b] by simp
qed

text \<open>
  Claim C7. \<^verbatim>\<open>check_rate_limit\<close> only prunes: each of the four queues it leaves is a suffix
  of the queue it found (nothing is appended), and the four lifetime counters and the four
  ceilings are unchanged. This holds also when the call raises.
\<close>

theorem check_rate_limit_frame:
  "suffix (minute_requests (snd (check_rate_limit now_clean now tokens_estimate s)))
          (minute_requests s) \<and>
   suffix (minute_tokens (snd (check_rate_limit now_clean now tokens_estimate s)))
          (minute_tokens s) \<and>
   suffix (day_requests (snd (check_rate_limit now_clean now tokens_estimate s)))
          (day_requests s) \<and>
   suffix (day_tokens (snd (check_rate_limit now_clean now tokens_estimate s)))
          (day_tokens s) \<and>
   total_requests (snd (check_rate_limit now_clean now tokens_estimate s)) = total_requests s \<and>
   total_tokens (snd (check_rate_limit now_clean now tokens_estimate s)) = total_tokens s \<and>
   total_wait_time (snd (check_rate_limit now_clean now tokens_estimate s)) = total_wait_time s \<and>
   rate_limit_hits (snd (check_rate_limit now_clean now tokens_estimate s)) = rate_limit_hits s \<and>
   requests_per_minute (snd (check_rate_limit now_clean now tokens_estimate s)) =
     requests_per_minute s \<and>
   tokens_per_minute (snd (check_rate_limit now_clean now tokens_estimate s)) =
     tokens_per_minute s \<and>
   requests_per_day (snd (check_rate_limit now_clean now tokens_estimate s)) =
     requests_per_day s \<and>
   tokens_per_day (snd (check_rate_limit now_clean now tokens_estimate s)) = tokens_per_day s"
  by (simp add: check_rate_limit_state clean_old_entries_frame)
     (simp add: clean_old_entries_def suffix_prune_requests suffix_prune_tokens)

text \<open>
  Claim C8 asks for a labelled error on a zero or negative ceiling and on a negative token
  estimate. The code validates nothing: a new limiter admits an estimate of -5, and a
  limiter built with \<^verbatim>\<open>requests_per_minute=-1\<close> is built, stores -1, and after one recorded
  call answers a check with an ordinary rejection.
\<close>

theorem no_validation_counterexample:
  "fst (check_rate_limit 1 1 (-5) (init ''claude'' 20 100000 10000 1000000)) =
     Inr (True, 0, None) \<and>
   requests_per_minute (init ''claude'' (-1) 100000 10000 1000000) = -1 \<and>
   fst (check_rate_limit 1 1 1000
          (record_request 0 10 (init ''claude'' (-1) 100000 10000 1000000))) =
     Inr (False, 59, Some ''requests_per_minute'')"
  by (simp add: check_rate_limit_def clean_old_entries_def record_request_def init_def
      sum_tokens_def)

text \<open>
  Claim C8, as the code has it. \<^verbatim>\<open>__init__\<close> stores the four ceilings as they are given,
  whatever their sign, and on a limiter whose two request ceilings are positive
  \<^verbatim>\<open>check_rate_limit\<close> returns its triple for every token estimate, negative ones included,
  and every value of the two token ceilings: no input is refused with an error.
\<close>

theorem no_validation:
  "requests_per_minute (init nm rpm tpm rpd tpd) = rpm \<and>
   tokens_per_minute (init nm rpm tpm rpd tpd) = tpm \<and>
   requests_per_day (init nm rpm tpm rpd tpd) = rpd \<and>
   tokens_per_day (init nm rpm tpm rpd tpd) = tpd \<and>
   (0 < requests_per_minute s \<and> 0 < requests_per_day s \<longrightarrow>
      (\<exists>r. fst (check_rate_limit now_clean now tokens_estimate s) = Inr r))"
  by (auto simp: check_rate_limit_def Let_def init_def clean_old_entries_frame
      split: list.splits)

theorem no_validation_witness:
  "(0::int) < requests_per_minute (init ''claude'' 20 (-7) 10000 1000000) \<and>
   0 < requests_per_day (init ''claude'' 20 (-7) 10000 1000000) \<and>
   (\<exists>r. fst (check_rate_limit 1 1 (-5) (init ''claude'' 20 (-7) 10000 1000000)) = Inr r)"
  using no_validation
    [of "''claude''" 20 "-7" 10000 1000000 "init ''claude'' 20 (-7) 10000 1000000" 1 1 "-5"]
  by (simp add: init_def)

section \<open>Blocking wait\<close>

text \<open>
  Claim C4. Let the first check of \<^verbatim>\<open>wait_if_needed\<close> return a triple. If it admits, the
  call returns \<^verbatim>\<open>True\<close> with no sleep, the object only pruned. If it rejects with a wait
  above 30, the call returns \<^verbatim>\<open>False\<close> with no sleep, and \<^verbatim>\<open>rate_limit_hits\<close> is one more
  than before the call.
\<close>

theorem wait_if_needed_first_attempt:
  assumes "fst (check_rate_limit (fst (clock 0)) (snd (clock 0)) tokens_estimate s0) =
             Inr (can_proceed, wait_time, limit_type)"
  shows "(can_proceed \<longrightarrow>
            wait_if_needed clock tokens_estimate s0 =
              Some (Inr True, clean_old_entries (fst (clock 0)) s0, [])) \<and>
         (\<not> can_proceed \<and> wait_time > 30 \<longrightarrow>
            wait_if_needed clock tokens_estimate s0 =
              Some (Inr False,
                    (clean_old_entries (fst (clock 0)) s0)
                      \<lparr>rate_limit_hits := rate_limit_hits s0 + 1\<rparr>,
                    []))"
proof -
  obtain r s where rs:
    "check_rate_limit (fst (clock 0)) (snd (clock 0)) tokens_estimate s0 = (r, s)"
    by (cases "check_rate_limit (fst (clock 0)) (snd (clock 0)) tokens_estimate s0")
  from rs assms have r: "r = Inr (can_proceed, wait_time, limit_type)" by simp
  from rs have s: "s = clean_old_entries (fst (clock 0)) s0"
    using check_rate_limit_state [of "fst (clock 0)" "snd (clock 0)" tokens_estimate s0]
    by simp
  show ?thesis
    unfolding wait_if_needed_def
    by (subst wait_if_needed_loop.simps, subst wait_if_needed_loop.simps)
       (simp add: rs r s clean_old_entries_frame)
qed

text \<open>
  A new limiter admits at once; a limiter with two requests per minute and two calls
  recorded at time 0, asked at time 15, recommends 45 and the call gives up (scenario D).
\<close>

theorem wait_if_needed_first_attempt_witness:
  "fst (check_rate_limit 1 1 50 (init ''claude'' 2 1000 10000 1000000)) = Inr (True, 0, None) \<and>
   wait_if_needed (\<lambda>i. (1, 1)) 50 (init ''claude'' 2 1000 10000 1000000) =
     Some (Inr True, init ''claude'' 2 1000 10000 1000000, []) \<and>
   fst (check_rate_limit 15 15 50
          (record_request 0 100 (record_request 0 100 (init ''claude'' 2 1000 10000 1000000)))) =
     Inr (False, 45, Some ''requests_per_minute'') \<and>
   wait_if_needed (\<lambda>i. (15, 15)) 50
       (record_request 0 100 (record_request 0 100 (init ''claude'' 2 1000 10000 1000000))) =
     Some (Inr False,
           (record_request 0 100 (record_request 0 100 (init ''claude'' 2 1000 10000 1000000)))
             \<lparr>rate_limit_hits := 1\<rparr>,
           [])"
proof -
  have a: "fst (check_rate_limit (fst ((\<lambda>i::nat. (1::real, 1::real)) 0))
                 (snd ((\<lambda>i::nat. (1::real, 1::real)) 0)) 50
                 (init ''claude'' 2 1000 10000 1000000)) = Inr (True, 0, None)"
    by (simp add: check_rate_limit_def clean_old_entries_def init_def sum_tokens_def)
  have b: "fst (check_rate_limit (fst ((\<lambda>i::nat. (15::real, 15::real)) 0))
                 (snd ((\<lambda>i::nat. (15::real, 15::real)) 0)) 50
                 (record_request 0 100 (record_request 0 100
                    (init ''claude'' 2 1000 10000 1000000)))) =
             Inr (False, 45, Some ''requests_per_minute'')"
    by (simp add: check_rate_limit_def clean_old_entries_def record_request_def init_def)
  show ?thesis
    using a b wait_if_needed_first_attempt [OF a] wait_if_needed_first_attempt [OF b]
    by (simp add: clean_old_entries_def record_request_def init_def)
qed

section \<open>Window pruning over a history\<close>

text \<open>
  The queues are pruned from the front only, so what a later pruning leaves depends on what
  earlier ones removed. \<open>kept\<close> records that everything removed so far was out of the
  window already; it survives a later clock, an append and a pruning.
\<close>

lemma kept_mono: "kept T w f every q \<Longrightarrow> T \<le> T' \<Longrightarrow> kept T' w f every q"
  unfolding kept_def by fastforce

lemma kept_snoc: "kept T w f every q \<Longrightarrow> kept T w f (every @ [x]) (q @ [x])"
  unfolding kept_def by auto

lemma kept_dropWhile:
  assumes "kept T w f every q"
  shows "kept T w f every (dropWhile (\<lambda>x. T - f x > w) q)"
proof -
  from assms obtain pre where pre: "every = pre @ q" "\<forall>x\<in>set pre. T - f x > w"
    unfolding kept_def by blast
  let ?P = "\<lambda>x. T - f x > w"
  have "every = (pre @ takeWhile ?P q) @ dropWhile ?P q"
    using pre(1) by simp
  moreover have "\<forall>x\<in>set (pre @ takeWhile ?P q). T - f x > w"
    using pre(2) by (auto dest: set_takeWhileD)
  ultimately show ?thesis unfolding kept_def by blast
qed

lemma sorted_dropWhile_filter:
  "sorted (map f q) \<Longrightarrow>
     dropWhile (\<lambda>x. now - f x > (w::real)) q = filter (\<lambda>x. now - f x \<le> w) q"
proof (induction q)
  case Nil
  then show ?case by simp
next
  case (Cons x q)
  show ?case
  proof (cases "now - f x > w")
    case True
    with Cons show ?thesis by simp
  next
    case False
    have "\<forall>y\<in>set q. now - f y \<le> w"
    proof
      fix y assume "y \<in> set q"
      with Cons.prems have "f x \<le> f y" by simp
      with False show "now - f y \<le> w" by linarith
    qed
    then have "filter (\<lambda>x. now - f x \<le> w) q = q" by (rule filter_True)
    with False show ?thesis by simp
  qed
qed

lemma kept_final:
  assumes k: "kept T w f every q" and srt: "sorted (map f every)" and le: "T \<le> now"
  shows "dropWhile (\<lambda>x. now - f x > w) q = filter (\<lambda>x. now - f x \<le> w) every"
proof -
  from k obtain pre where pre: "every = pre @ q" "\<forall>x\<in>set pre. T - f x > w"
    unfolding kept_def by blast
  have "\<forall>x\<in>set pre. \<not> now - f x \<le> w"
  proof
    fix x assume "x \<in> set pre"
    with pre(2) have "T - f x > w" by blast
    with le show "\<not> now - f x \<le> w" by linarith
  qed
  then have a: "filter (\<lambda>x. now - f x \<le> w) pre = []" by simp
  from srt pre(1) have "sorted (map f q)" by (simp add: sorted_append)
  then have "dropWhile (\<lambda>x. now - f x > w) q = filter (\<lambda>x. now - f x \<le> w) q"
    by (rule sorted_dropWhile_filter)
  with a pre(1) show ?thesis by simp
qed

lemma recorded_snoc:
  "recorded (cs @ [c]) = recorded cs @ (case c of RecordRequest t n \<Rightarrow> [(t, n)] | _ \<Rightarrow> [])"
  by (induction cs rule: recorded.induct) (simp_all split: call.splits)

lemma trail_mono: "trail T cs s \<Longrightarrow> T \<le> T' \<Longrightarrow> trail T' cs s"
  unfolding trail_def by (auto intro: kept_mono)

lemma trail_clean: "trail T cs s \<Longrightarrow> trail T cs (clean_old_entries T s)"
  unfolding trail_def
  by (simp add: clean_old_entries_def prune_requests_dropWhile prune_tokens_dropWhile
      kept_dropWhile)

lemma trail_record:
  assumes "trail T cs s"
  shows "trail T (cs @ [RecordRequest T n]) (record_request T n s)"
proof -
  have rec: "recorded (cs @ [RecordRequest T n]) = recorded cs @ [(T, n)]"
    by (simp add: recorded_snoc)
  have "kept T 60 (\<lambda>t. t) (map fst (recorded cs) @ [T]) (minute_requests s @ [T])"
    and "kept T 60 fst (recorded cs @ [(T, n)]) (minute_tokens s @ [(T, n)])"
    and "kept T 86400 (\<lambda>t. t) (map fst (recorded cs) @ [T]) (day_requests s @ [T])"
    and "kept T 86400 fst (recorded cs @ [(T, n)]) (day_tokens s @ [(T, n)])"
    using assms unfolding trail_def by (simp_all add: kept_snoc)
  moreover have "sorted (map fst (recorded cs) @ [T])"
    using assms unfolding trail_def by (auto simp: sorted_append)
  ultimately show ?thesis
    using assms unfolding trail_def by (simp add: rec record_request_def)
qed

lemma trail_init: "trail T [] (init nm rpm tpm rpd tpd)"
  by (simp add: trail_def kept_def init_def)

lemma run_snoc: "run (cs @ [c]) s = apply_call c (run cs s)"
  by (simp add: run_def)

lemma trail_run:
  "sorted (concat (map clock_readings cs) @ [T]) \<Longrightarrow> trail T cs (run cs (init nm rpm tpm rpd tpd))"
proof (induction cs arbitrary: T rule: rev_induct)
  case Nil
  show ?case by (simp add: run_def trail_init)
next
  case (snoc c cs)
  let ?s = "run cs (init nm rpm tpm rpd tpd)"
  show ?case
  proof (cases c)
    case (RecordRequest t n)
    with snoc.prems have "sorted (concat (map clock_readings cs) @ [t])" and "t \<le> T"
      by (simp_all add: sorted_append)
    then have "trail t (cs @ [RecordRequest t n]) (record_request t n ?s)"
      using snoc.IH trail_record by blast
    with \<open>t \<le> T\<close> show ?thesis
      by (simp add: RecordRequest run_snoc trail_mono)
  next
    case (CheckRateLimit nc nw est)
    with snoc.prems have "sorted (concat (map clock_readings cs) @ [nc])" and "nc \<le> T"
      by (auto simp: sorted_append)
    then have "trail nc cs (clean_old_entries nc ?s)"
      using snoc.IH trail_clean by blast
    then have "trail nc (cs @ [c]) (clean_old_entries nc ?s)"
      by (simp add: trail_def recorded_snoc CheckRateLimit)
    with \<open>nc \<le> T\<close> show ?thesis
      by (simp add: CheckRateLimit run_snoc check_rate_limit_state trail_mono)
  next
    case (GetUsageStats nw stamp)
    with snoc.prems have "sorted (concat (map clock_readings cs) @ [nw])" and "nw \<le> T"
      by (auto simp: sorted_append)
    then have "trail nw cs (clean_old_entries nw ?s)"
      using snoc.IH trail_clean by blast
    then have "trail nw (cs @ [c]) (clean_old_entries nw ?s)"
      by (simp add: trail_def recorded_snoc GetUsageStats)
    with \<open>nw \<le> T\<close> show ?thesis
      by (simp add: GetUsageStats run_snoc get_usage_stats_def Let_def trail_mono)
  qed
qed

text \<open>
  Claim C5. Take any history of \<^verbatim>\<open>record_request\<close>, \<^verbatim>\<open>check_rate_limit\<close> and
  \<^verbatim>\<open>get_usage_stats\<close> calls on a new limiter whose clock readings never decrease, and prune
  at a time \<open>now\<close> not before the last of them. Then each minute queue holds exactly the
  recorded entries with \<open>now - timestamp \<le> 60\<close>, each day queue exactly those with
  \<open>now - timestamp \<le> 86400\<close>, in the order of recording, and the four queues are in
  ascending order of timestamp.
\<close>

theorem window_correctness:
  assumes "sorted (concat (map clock_readings cs) @ [now])"
    and "s = clean_old_entries now (run cs (init nm rpm tpm rpd tpd))"
  shows "minute_requests s = filter (\<lambda>t. now - t \<le> 60) (map fst (recorded cs)) \<and>
         minute_tokens s = filter (\<lambda>e. now - fst e \<le> 60) (recorded cs) \<and>
         day_requests s = filter (\<lambda>t. now - t \<le> 86400) (map fst (recorded cs)) \<and>
         day_tokens s = filter (\<lambda>e. now - fst e \<le> 86400) (recorded cs) \<and>
         sorted (minute_requests s) \<and> sorted (map fst (minute_tokens s)) \<and>
         sorted (day_requests s) \<and> sorted (map fst (day_tokens s))"
proof -
  let ?s0 = "run cs (init nm rpm tpm rpd tpd)"
  have tr: "trail now cs ?s0" using assms(1) by (rule trail_run)
  then have srt: "sorted (map fst (recorded cs))" by (simp add: trail_def)
  then have srt': "sorted (map (\<lambda>t. t) (map fst (recorded cs)))" by simp
  have mr: "minute_requests s = filter (\<lambda>t. now - t \<le> 60) (map fst (recorded cs))"
    using tr kept_final [OF _ srt' order_refl, of now 60 "minute_requests ?s0"]
    by (simp add: assms(2) clean_old_entries_def prune_requests_dropWhile trail_def)
  have mt: "minute_tokens s = filter (\<lambda>e. now - fst e \<le> 60) (recorded cs)"
    using tr kept_final [OF _ srt order_refl, of now 60 "minute_tokens ?s0"]
    by (simp add: assms(2) clean_old_entries_def prune_tokens_dropWhile trail_def)
  have dr: "day_requests s = filter (\<lambda>t. now - t \<le> 86400) (map fst (recorded cs))"
    using tr kept_final [OF _ srt' order_refl, of now 86400 "day_requests ?s0"]
    by (simp add: assms(2) clean_old_entries_def prune_requests_dropWhile trail_def)
  have dt: "day_tokens s = filter (\<lambda>e. now - fst e \<le> 86400) (recorded cs)"
    using tr kept_final [OF _ srt order_refl, of now 86400 "day_tokens ?s0"]
    by (simp add: assms(2) clean_old_entries_def prune_tokens_dropWhile trail_def)
  have "sorted (filter (\<lambda>t. now - t \<le> 60) (map fst (recorded cs)))"
    and "sorted (filter (\<lambda>t. now - t \<le> 86400) (map fst (recorded cs)))"
    using sorted_filter [OF srt'] by simp_all
  moreover have "sorted (map fst (filter (\<lambda>e. now - fst e \<le> 60) (recorded cs)))"
    and "sorted (map fst (filter (\<lambda>e. now - fst e \<le> 86400) (recorded cs)))"
    using srt by (rule sorted_filter)+
  ultimately show ?thesis by (simp add: mr mt dr dt)
qed

text \<open>
  Calls recorded at 0, 10 and 70 with a check at 65 and a snapshot at 80 in between,
  pruned at 100: the minute queue holds the entry of time 70, the day queue all three.
\<close>

theorem window_correctness_witness:
  "sorted (concat (map clock_readings
       [RecordRequest 0 100, RecordRequest 10 50, CheckRateLimit 65 66 10,
        RecordRequest 70 5, GetUsageStats 80 ''x'']) @ [100]) \<and>
   minute_requests (clean_old_entries 100 (run
       [RecordRequest 0 100, RecordRequest 10 50, CheckRateLimit 65 66 10,
        RecordRequest 70 5, GetUsageStats 80 ''x''] (init ''claude'' 20 1000 10000 1000000))) = [70] \<and>
   day_tokens (clean_old_entries 100 (run
       [RecordRequest 0 100, RecordRequest 10 50, CheckRateLimit 65 66 10,
        RecordRequest 70 5, GetUsageStats 80 ''x''] (init ''claude'' 20 1000 10000 1000000))) =
     [(0, 100), (10, 50), (70, 5)]"
proof -
  have h: "sorted (concat (map clock_readings
       [RecordRequest 0 100, RecordRequest 10 50, CheckRateLimit 65 66 10,
        RecordRequest 70 5, GetUsageStats 80 ''x'']) @ [100])"
    by simp
  show ?thesis
    using h window_correctness [OF h refl, of "''claude''" 20 1000 10000 1000000]
    by simp
qed

section \<open>Minute queues are suffixes of day queues\<close>

lemma suffix_dropWhile_weaker:
  assumes "\<And>x. Q x \<Longrightarrow> P x"
  shows "suffix (dropWhile P xs) (dropWhile Q xs)"
proof -
  have "dropWhile P (dropWhile Q xs) = dropWhile P xs"
    using assms by (induction xs) auto
  then show ?thesis by (metis suffix_dropWhile)
qed

lemma suffix_dropWhile_both:
  assumes imp: "\<And>x. Q x \<Longrightarrow> P x" and suf: "suffix m d"
  shows "suffix (dropWhile P m) (dropWhile Q d)"
proof -
  from suf obtain pre where d: "d = pre @ m" by (auto simp: suffix_def)
  show ?thesis
  proof (cases "\<forall>x\<in>set pre. Q x")
    case True
    then have "dropWhile Q d = dropWhile Q m" by (simp add: d)
    then show ?thesis using suffix_dropWhile_weaker [of Q P m, OF imp] by simp
  next
    case False
    then have "dropWhile Q d = dropWhile Q pre @ m" by (auto simp: d dropWhile_append)
    moreover have "suffix (dropWhile P m) m" by (rule suffix_dropWhile)
    ultimately show ?thesis by (simp add: suffix_appendI)
  qed
qed

lemma logs_inv_init: "logs_inv (init nm rpm tpm rpd tpd)"
  by (simp add: logs_inv_def init_def)

lemma logs_inv_record_request: "logs_inv s \<Longrightarrow> logs_inv (record_request now tokens_used s)"
  by (simp add: logs_inv_def record_request_def)

lemma logs_inv_clean_old_entries:
  assumes "logs_inv s"
  shows "logs_inv (clean_old_entries now s)"
proof -
  from assms have w: "minute_window s \<le> day_window s"
    and r: "suffix (minute_requests s) (day_requests s)"
    and t: "suffix (minute_tokens s) (day_tokens s)"
    by (simp_all add: logs_inv_def)
  have "suffix (prune_requests now (minute_window s) (minute_requests s))
               (prune_requests now (day_window s) (day_requests s))"
    unfolding prune_requests_dropWhile using w by (intro suffix_dropWhile_both r) simp
  moreover have "suffix (prune_tokens now (minute_window s) (minute_tokens s))
               (prune_tokens now (day_window s) (day_tokens s))"
    unfolding prune_tokens_dropWhile using w by (intro suffix_dropWhile_both t) simp
  ultimately show ?thesis using w by (simp add: logs_inv_def clean_old_entries_def)
qed

lemma logs_inv_counters:
  "logs_inv (s\<lparr>rate_limit_hits := b\<rparr>) = logs_inv s"
  "logs_inv (s\<lparr>total_wait_time := a, rate_limit_hits := b\<rparr>) = logs_inv s"
  by (simp_all add: logs_inv_def)

lemma tokens_nonneg_counters:
  "tokens_nonneg (s\<lparr>rate_limit_hits := b\<rparr>) = tokens_nonneg s"
  "tokens_nonneg (s\<lparr>total_wait_time := a, rate_limit_hits := b\<rparr>) = tokens_nonneg s"
  by (simp_all add: tokens_nonneg_def)

lemma tokens_nonneg_init: "tokens_nonneg (init nm rpm tpm rpd tpd)"
  by (simp add: tokens_nonneg_def init_def)

lemma tokens_nonneg_record_request:
  "tokens_nonneg s \<Longrightarrow> 0 \<le> tokens_used \<Longrightarrow> tokens_nonneg (record_request now tokens_used s)"
  by (simp add: tokens_nonneg_def record_request_def)

lemma tokens_nonneg_clean_old_entries:
  "tokens_nonneg s \<Longrightarrow> tokens_nonneg (clean_old_entries now s)"
  by (auto simp: tokens_nonneg_def clean_old_entries_def prune_tokens_dropWhile
      dest: set_dropWhileD)

lemma wait_if_needed_loop_preserves:
  assumes cl: "\<And>now s. P s \<Longrightarrow> P (clean_old_entries now s)"
    and u1: "\<And>s b. P (s\<lparr>rate_limit_hits := b\<rparr>) = P s"
    and u2: "\<And>s a b. P (s\<lparr>total_wait_time := a, rate_limit_hits := b\<rparr>) = P s"
    and run: "wait_if_needed_loop clock i tokens_estimate s slept = Some res"
    and start: "P s"
  shows "P (fst (snd res))"
  using run start
proof (induction clock i tokens_estimate s slept res
    rule: wait_if_needed_loop.raw_induct [rotated, consumes 1])
  case (1 loop clock i tokens_estimate s0 slept res)
  obtain r s where rs:
    "check_rate_limit (fst (clock i)) (snd (clock i)) tokens_estimate s0 = (r, s)"
    by (cases "check_rate_limit (fst (clock i)) (snd (clock i)) tokens_estimate s0")
  then have s: "s = clean_old_entries (fst (clock i)) s0"
    using check_rate_limit_state [of "fst (clock i)" "snd (clock i)" tokens_estimate s0]
    by simp
  with "1.prems" cl have Ps: "P s" by simp
  show ?case
  proof (cases r)
    case (Inl e)
    with "1.hyps" rs Ps show ?thesis by auto
  next
    case (Inr tr)
    obtain can_proceed wait_time limit_type where tr: "tr = (can_proceed, wait_time, limit_type)"
      by (cases tr)
    show ?thesis
    proof (cases can_proceed)
      case True
      with "1.hyps" rs Inr tr Ps show ?thesis by auto
    next
      case False
      show ?thesis
      proof (cases "wait_time > 30")
        case True
        with "1.hyps" rs Inr tr Ps False u1 show ?thesis by auto
      next
        case w: False
        with "1.hyps" rs Inr tr False have
          "loop clock (i + 1) tokens_estimate
             (s\<lparr>total_wait_time := total_wait_time s + wait_time,
                rate_limit_hits := rate_limit_hits s + 1\<rparr>) (slept @ [wait_time]) = Some res"
          by simp
        moreover have "P (s\<lparr>total_wait_time := total_wait_time s + wait_time,
                rate_limit_hits := rate_limit_hits s + 1\<rparr>)"
          using Ps u2 by simp
        ultimately show ?thesis by (rule "1.IH")
      qed
    qed
  qed
qed

lemma sum_tokens_suffix:
  assumes "suffix m d" and "\<forall>e\<in>set d. 0 \<le> snd e"
  shows "sum_tokens m \<le> sum_tokens d"
proof -
  from assms(1) obtain pre where d: "d = pre @ m" by (auto simp: suffix_def)
  with assms(2) have "\<forall>e\<in>set pre. 0 \<le> snd e" by simp
  then have "0 \<le> sum_list (map snd pre)" by (auto intro!: sum_list_nonneg)
  then show ?thesis by (simp add: d sum_tokens_def)
qed

text \<open>
  Claim C10 states the order of the token sums for every limiter with non-decreasing
  timestamps. \<^verbatim>\<open>record_request\<close> accepts any integer: with -5 tokens recorded at 0 and
  10 tokens at 100, the snapshot at 100 has the minute queue a suffix of the day queue and
  reports a minute token sum of 10 and a day token sum of 5.
\<close>

theorem negative_tokens_counterexample:
  "day_requests (record_request 100 10 (record_request 0 (-5)
       (init ''claude'' 20 1000 10000 1000000))) = [0, 100] \<and>
   logs_inv (record_request 100 10 (record_request 0 (-5)
       (init ''claude'' 20 1000 10000 1000000))) \<and>
   current_minute_tokens (fst (get_usage_stats 100 ''t'' (record_request 100 10
       (record_request 0 (-5) (init ''claude'' 20 1000 10000 1000000))))) = 10 \<and>
   current_day_tokens (fst (get_usage_stats 100 ''t'' (record_request 100 10
       (record_request 0 (-5) (init ''claude'' 20 1000 10000 1000000))))) = 5 \<and>
   \<not> current_minute_tokens (fst (get_usage_stats 100 ''t'' (record_request 100 10
       (record_request 0 (-5) (init ''claude'' 20 1000 10000 1000000))))) \<le>
     current_day_tokens (fst (get_usage_stats 100 ''t'' (record_request 100 10
       (record_request 0 (-5) (init ''claude'' 20 1000 10000 1000000)))))"
  by (simp add: get_usage_stats_def clean_old_entries_def record_request_def init_def
      sum_tokens_def logs_inv_def)

text \<open>
  Claim C10, as the code has it. On a new limiter each minute queue is a suffix of its day
  queue, and every operation keeps it so: \<^verbatim>\<open>record_request\<close>, \<^verbatim>\<open>_clean_old_entries\<close>,
  \<^verbatim>\<open>check_rate_limit\<close>, \<^verbatim>\<open>get_usage_stats\<close>, and \<^verbatim>\<open>wait_if_needed\<close> whenever it returns
  (no order of the timestamps is needed). Hence a snapshot reports no more minute requests
  than day requests. No recorded token count is negative on a new limiter, and this is kept
  as long as \<^verbatim>\<open>record_request\<close> is given non-negative counts; on such a limiter the
  snapshot reports a minute token sum that is at most the day token sum.
\<close>

theorem minute_logs_suffix_of_day_logs:
  assumes "logs_inv s"
  shows "logs_inv (init nm rpm tpm rpd tpd) \<and> tokens_nonneg (init nm rpm tpm rpd tpd) \<and>
         logs_inv (record_request now tokens_used s) \<and>
         logs_inv (clean_old_entries now s) \<and>
         logs_inv (snd (check_rate_limit now_clean now tokens_estimate s)) \<and>
         logs_inv (snd (get_usage_stats now stamp s)) \<and>
         (\<forall>res. wait_if_needed clock tokens_estimate s = Some res \<longrightarrow> logs_inv (fst (snd res))) \<and>
         (tokens_nonneg s \<and> 0 \<le> tokens_used \<longrightarrow>
            tokens_nonneg (record_request now tokens_used s)) \<and>
         (tokens_nonneg s \<longrightarrow>
            tokens_nonneg (clean_old_entries now s) \<and>
            tokens_nonneg (snd (check_rate_limit now_clean now tokens_estimate s)) \<and>
            tokens_nonneg (snd (get_usage_stats now stamp s)) \<and>
            (\<forall>res. wait_if_needed clock tokens_estimate s = Some res \<longrightarrow>
                tokens_nonneg (fst (snd res)))) \<and>
         current_minute_requests (fst (get_usage_stats now stamp s)) \<le>
           current_day_requests (fst (get_usage_stats now stamp s)) \<and>
         (tokens_nonneg s \<longrightarrow>
            current_minute_tokens (fst (get_usage_stats now stamp s)) \<le>
              current_day_tokens (fst (get_usage_stats now stamp s)))"
proof -
  have c: "\<And>t. logs_inv (clean_old_entries t s)"
    using assms by (rule logs_inv_clean_old_entries)
  have a: "logs_inv (record_request now tokens_used s)"
    using assms by (rule logs_inv_record_request)
  have b: "logs_inv (snd (check_rate_limit now_clean now tokens_estimate s))"
    by (simp add: check_rate_limit_state c)
  have d: "logs_inv (snd (get_usage_stats now stamp s))"
    by (simp add: get_usage_stats_def Let_def c)
  have e: "\<forall>res. wait_if_needed clock tokens_estimate s = Some res \<longrightarrow> logs_inv (fst (snd res))"
    unfolding wait_if_needed_def
    using wait_if_needed_loop_preserves [of logs_inv, OF logs_inv_clean_old_entries logs_inv_counters]
      assms by blast
  have f: "tokens_nonneg s \<and> 0 \<le> tokens_used \<longrightarrow>
            tokens_nonneg (record_request now tokens_used s)"
    by (simp add: tokens_nonneg_record_request)
  have g: "tokens_nonneg s \<longrightarrow> tokens_nonneg (clean_old_entries now s) \<and>
            tokens_nonneg (snd (check_rate_limit now_clean now tokens_estimate s)) \<and>
            tokens_nonneg (snd (get_usage_stats now stamp s))"
    by (simp add: check_rate_limit_state get_usage_stats_def Let_def
        tokens_nonneg_clean_old_entries)
  have h: "tokens_nonneg s \<longrightarrow> (\<forall>res. wait_if_needed clock tokens_estimate s = Some res \<longrightarrow>
                tokens_nonneg (fst (snd res)))"
    unfolding wait_if_needed_def
    using wait_if_needed_loop_preserves [of tokens_nonneg, OF tokens_nonneg_clean_old_entries
        tokens_nonneg_counters]
    by blast
  have i: "current_minute_requests (fst (get_usage_stats now stamp s)) \<le>
           current_day_requests (fst (get_usage_stats now stamp s))"
    using c [of now] by (simp add: get_usage_stats_def Let_def logs_inv_def suffix_length_le)
  have j: "tokens_nonneg s \<longrightarrow>
            current_minute_tokens (fst (get_usage_stats now stamp s)) \<le>
              current_day_tokens (fst (get_usage_stats now stamp s))"
  proof
    assume "tokens_nonneg s"
    then have "tokens_nonneg (clean_old_entries now s)" by (rule tokens_nonneg_clean_old_entries)
    then have "\<forall>e\<in>set (day_tokens (clean_old_entries now s)). 0 \<le> snd e"
      by (simp add: tokens_nonneg_def)
    moreover have "suffix (minute_tokens (clean_old_entries now s)) (day_tokens (clean_old_entries now s))"
      using c [of now] by (simp add: logs_inv_def)
    ultimately have "sum_tokens (minute_tokens (clean_old_entries now s))
        \<le> sum_tokens (day_tokens (clean_old_entries now s))"
      by (intro sum_tokens_suffix)
    then show "current_minute_tokens (fst (get_usage_stats now stamp s)) \<le>
              current_day_tokens (fst (get_usage_stats now stamp s))"
      by (simp add: get_usage_stats_def Let_def)
  qed
  from logs_inv_init tokens_nonneg_init a c [of now] b d e f g h i j show ?thesis by blast
qed

text \<open>
  Calls of 100 and 5 tokens recorded at 0 and 70, a snapshot at 100: one request and 5
  tokens in the minute, two requests and 105 tokens in the day; \<^verbatim>\<open>wait_if_needed\<close> at 100
  returns at once and leaves the minute queue \<open>[70]\<close> and the day queue \<open>[0, 70]\<close>.
\<close>

theorem minute_logs_suffix_of_day_logs_witness:
  "logs_inv (record_request 70 5 (record_request 0 100 (init ''claude'' 20 1000 10000 1000000))) \<and>
   tokens_nonneg
     (record_request 70 5 (record_request 0 100 (init ''claude'' 20 1000 10000 1000000))) \<and>
   (0::int) \<le> 7 \<and>
   wait_if_needed (\<lambda>i. (100, 100)) 50
       (record_request 70 5 (record_request 0 100 (init ''claude'' 20 1000 10000 1000000))) =
     Some (Inr True,
           clean_old_entries 100
             (record_request 70 5 (record_request 0 100 (init ''claude'' 20 1000 10000 1000000))),
           []) \<and>
   logs_inv (clean_old_entries 100
       (record_request 70 5 (record_request 0 100 (init ''claude'' 20 1000 10000 1000000)))) \<and>
   tokens_nonneg (record_request 100 7
       (record_request 70 5 (record_request 0 100 (init ''claude'' 20 1000 10000 1000000)))) \<and>
   current_minute_requests (fst (get_usage_stats 100 ''t''
       (record_request 70 5 (record_request 0 100 (init ''claude'' 20 1000 10000 1000000))))) = 1 \<and>
   current_day_requests (fst (get_usage_stats 100 ''t''
       (record_request 70 5 (record_request 0 100 (init ''claude'' 20 1000 10000 1000000))))) = 2 \<and>
   current_minute_tokens (fst (get_usage_stats 100 ''t''
       (record_request 70 5 (record_request 0 100 (init ''claude'' 20 1000 10000 1000000))))) = 5 \<and>
   current_day_tokens (fst (get_usage_stats 100 ''t''
       (record_request 70 5 (record_request 0 100 (init ''claude'' 20 1000 10000 1000000))))) = 105"
proof -
  let ?s = "record_request 70 5 (record_request 0 100 (init ''claude'' 20 1000 10000 1000000))"
  have h: "logs_inv ?s"
    by (simp add: logs_inv_def record_request_def init_def)
  have n: "tokens_nonneg ?s"
    by (simp add: tokens_nonneg_def record_request_def init_def)
  have w: "wait_if_needed (\<lambda>i. (100, 100)) 50 ?s = Some (Inr True, clean_old_entries 100 ?s, [])"
    unfolding wait_if_needed_def
    by (subst wait_if_needed_loop.simps)
       (simp add: check_rate_limit_def clean_old_entries_def record_request_def init_def
          sum_tokens_def)
  have st: "current_minute_requests (fst (get_usage_stats 100 ''t'' ?s)) = 1"
    "current_day_requests (fst (get_usage_stats 100 ''t'' ?s)) = 2"
    "current_minute_tokens (fst (get_usage_stats 100 ''t'' ?s)) = 5"
    "current_day_tokens (fst (get_usage_stats 100 ''t'' ?s)) = 105"
    by (simp_all add: get_usage_stats_def clean_old_entries_def record_request_def init_def
        sum_tokens_def)
  from minute_logs_suffix_of_day_logs
         [OF h, of "''claude''" 20 1000 10000 1000000 100 7 100 50 "''t''" "\<lambda>i. (100, 100)"]
  have "logs_inv (clean_old_entries 100 ?s)"
    and "tokens_nonneg ?s \<and> (0::int) \<le> 7 \<longrightarrow> tokens_nonneg (record_request 100 7 ?s)"
    by blast+
  with h n w st show ?thesis by simp
qed

section \<open>Concurrent callers\<close>

text \<open>
  A thread that runs alone computes \<^verbatim>\<open>wait_if_needed\<close>: a step does not change what the
  call is going to return, so a lone thread that has finished has returned what the loop
  returns, and when the loop returns the lone thread finishes.
\<close>

lemma continuation_thread_step:
  "thread_step clock tokens_estimate th s = (th', s') \<Longrightarrow>
     continuation clock tokens_estimate th' s' = continuation clock tokens_estimate th s"
proof (induction clock tokens_estimate th s rule: thread_step.induct)
  case (1 clock tokens_estimate i slept s0)
  obtain r s where rs:
    "check_rate_limit (fst (clock i)) (snd (clock i)) tokens_estimate s0 = (r, s)"
    by (cases "check_rate_limit (fst (clock i)) (snd (clock i)) tokens_estimate s0")
  note unfold = wait_if_needed_loop.simps [of clock i tokens_estimate s0 slept]
  show ?case
    using "1.prems" by (auto simp: unfold rs split: sum.splits if_splits)
qed auto

lemma sched_step_lone:
  "thread_step clock tokens_estimate th s = (th', s') \<Longrightarrow>
     sched_step 0 ([(clock, tokens_estimate, th)], s) = ([(clock, tokens_estimate, th')], s')"
  by simp

lemma run_schedule_lone:
  "\<exists>th' s'. run_schedule (replicate n 0) ([(clock, tokens_estimate, th)], s) =
       ([(clock, tokens_estimate, th')], s') \<and>
     continuation clock tokens_estimate th' s' = continuation clock tokens_estimate th s"
proof (induction n arbitrary: th s)
  case 0
  show ?case by (simp add: run_schedule_def)
next
  case (Suc n)
  obtain th1 s1 where st: "thread_step clock tokens_estimate th s = (th1, s1)"
    by (cases "thread_step clock tokens_estimate th s")
  from Suc [of th1 s1] obtain th' s' where
    r: "run_schedule (replicate n 0) ([(clock, tokens_estimate, th1)], s1) =
          ([(clock, tokens_estimate, th')], s')"
    and c: "continuation clock tokens_estimate th' s' = continuation clock tokens_estimate th1 s1"
    by blast
  have "run_schedule (replicate (Suc n) 0) ([(clock, tokens_estimate, th)], s) =
          ([(clock, tokens_estimate, th')], s')"
    using r sched_step_lone [OF st] by (simp add: run_schedule_def del: sched_step.simps)
  with c continuation_thread_step [OF st] show ?case by simp
qed

lemma lone_thread_agrees:
  assumes "run_schedule (replicate n 0) ([start_wait clock tokens_estimate], s) = (ws, s')"
    and "progress (ws, s') = [(Returned b, i, slept)]"
  shows "wait_if_needed clock tokens_estimate s = Some (Inr b, s', slept)"
proof -
  from run_schedule_lone [of n clock tokens_estimate "(Line159, 0, [])" s]
  obtain th1 s1 where
    r: "run_schedule (replicate n 0) ([(clock, tokens_estimate, (Line159, 0, []))], s) =
          ([(clock, tokens_estimate, th1)], s1)"
    and c: "continuation clock tokens_estimate th1 s1 =
          continuation clock tokens_estimate (Line159, 0, []) s"
    by blast
  from r assms(1) have "ws = [(clock, tokens_estimate, th1)]" and "s1 = s'"
    by (simp_all add: start_wait_def)
  with assms(2) have "th1 = (Returned b, i, slept)" by (simp add: progress_def)
  with c \<open>s1 = s'\<close> show ?thesis by (simp add: wait_if_needed_def)
qed

lemma run_schedule_append:
  "run_schedule (xs @ ys) cfg = run_schedule ys (run_schedule xs cfg)"
  by (simp add: run_schedule_def)

lemma lone_thread_finishes:
  assumes "wait_if_needed_loop clock i tokens_estimate s slept = Some res"
  shows "\<exists>n p j sl s'. run_schedule (replicate n 0) ([(clock, tokens_estimate, (Line159, i, slept))], s) =
            ([(clock, tokens_estimate, (p, j, sl))], s') \<and> finished p"
  using assms
proof (induction clock i tokens_estimate s slept res
    rule: wait_if_needed_loop.raw_induct [rotated, consumes 1])
  case (1 loop clock i tokens_estimate s0 slept res)
  obtain r s where rs:
    "check_rate_limit (fst (clock i)) (snd (clock i)) tokens_estimate s0 = (r, s)"
    by (cases "check_rate_limit (fst (clock i)) (snd (clock i)) tokens_estimate s0")
  let ?go = "\<lambda>n. run_schedule (replicate n 0) ([(clock, tokens_estimate, (Line159, i, slept))], s0)"
  show ?case
  proof (cases r)
    case (Inl e)
    have "?go (Suc 0) = ([(clock, tokens_estimate, (Raised e, i, slept))], s)"
      by (simp add: run_schedule_def rs Inl)
    then show ?thesis by (metis finished.simps(2))
  next
    case (Inr tr)
    obtain can_proceed wait_time limit_type where tr: "tr = (can_proceed, wait_time, limit_type)"
      by (cases tr)
    show ?thesis
    proof (cases can_proceed)
      case True
      have "?go (Suc 0) = ([(clock, tokens_estimate, (Returned True, i, slept))], s)"
        by (simp add: run_schedule_def rs Inr tr True)
      then show ?thesis by (metis finished.simps(1))
    next
      case False
      show ?thesis
      proof (cases "wait_time > 30")
        case True
        have "?go (Suc (Suc (Suc 0))) =
                ([(clock, tokens_estimate, (Returned False, i, slept))],
                 s\<lparr>rate_limit_hits := rate_limit_hits s + 1\<rparr>)"
          by (simp add: run_schedule_def rs Inr tr True False)
        then show ?thesis by (metis finished.simps(1))
      next
        case w: False
        let ?s = "s\<lparr>total_wait_time := total_wait_time s + wait_time,
                     rate_limit_hits := rate_limit_hits s + 1\<rparr>"
        from "1.hyps" rs Inr tr False w have
          "loop clock (i + 1) tokens_estimate ?s (slept @ [wait_time]) = Some res"
          by simp
        then obtain n p j sl s' where
          n: "run_schedule (replicate n 0)
                ([(clock, tokens_estimate, (Line159, i + 1, slept @ [wait_time]))], ?s) =
              ([(clock, tokens_estimate, (p, j, sl))], s')" and fin: "finished p"
          using "1.IH" by blast
        have six: "?go (Suc (Suc (Suc (Suc (Suc (Suc 0)))))) =
                ([(clock, tokens_estimate, (Line159, i + 1, slept @ [wait_time]))], ?s)"
          by (simp add: run_schedule_def rs Inr tr False w)
        have "?go (Suc (Suc (Suc (Suc (Suc (Suc 0))))) + n) =
                ([(clock, tokens_estimate, (p, j, sl))], s')"
          unfolding replicate_add run_schedule_append six by (rule n)
        with fin show ?thesis by blast
      qed
    qed
  qed
qed

text \<open>
  Claim C9 asks that every read and write of the queues and counters, those of
  \<^verbatim>\<open>wait_if_needed\<close> included, is made while the lock is held, so that no event is lost
  under concurrent callers. Take the limiter of scenario D (two requests per minute, two
  calls recorded at time 0).
  \<^item> A call at time 15 (recommended wait 45) makes three steps: the check, under the lock,
    then the read and the write of \<^verbatim>\<open>rate_limit_hits\<close> of line 165, both without the lock.
    Run alone, it ends as \<^verbatim>\<open>wait_if_needed\<close> does.
  \<^item> A call at time 40 (recommended wait 20) reads and writes \<^verbatim>\<open>total_wait_time\<close>
    (line 169) and \<^verbatim>\<open>rate_limit_hits\<close> (line 170) without the lock before it sleeps.
  \<^item> Two calls at time 15 that run one after the other leave \<^verbatim>\<open>rate_limit_hits = 2\<close>; when
    they take turns step by step both read 0 and both write 1: both return \<^verbatim>\<open>False\<close>
    and one hit is lost.
\<close>

theorem wait_if_needed_counters_without_lock:
  "schedule_trace [0, 0, 0] ([start_wait (\<lambda>i. (15, 15)) 50], (record_request 0 100 (record_request 0 100 (init ''claude'' 2 1000 10000 1000000)))) =
     [(0, Line159), (0, Line165_read), (0, Line165_write 0)] \<and>
   holds_lock Line159 \<and>
   unguarded Line165_read \<and> touches Line165_read = [Rate_limit_hits] \<and>
   unguarded (Line165_write 0) \<and> touches (Line165_write 0) = [Rate_limit_hits] \<and>
   progress (run_schedule [0, 0, 0] ([start_wait (\<lambda>i. (15, 15)) 50], (record_request 0 100 (record_request 0 100 (init ''claude'' 2 1000 10000 1000000))))) = [(Returned False, 0, [])] \<and>
   wait_if_needed (\<lambda>i. (15, 15)) 50 (record_request 0 100 (record_request 0 100 (init ''claude'' 2 1000 10000 1000000))) =
     Some (Inr False, snd (run_schedule [0, 0, 0] ([start_wait (\<lambda>i. (15, 15)) 50], (record_request 0 100 (record_request 0 100 (init ''claude'' 2 1000 10000 1000000))))), []) \<and>
   schedule_trace [0, 0, 0, 0, 0, 0] ([start_wait (\<lambda>i. (40, 40)) 50], (record_request 0 100 (record_request 0 100 (init ''claude'' 2 1000 10000 1000000)))) =
     [(0, Line159), (0, Line169_read 20), (0, Line169_write 20 0),
      (0, Line170_read 20), (0, Line170_write 20 0), (0, Line171 20)] \<and>
   unguarded (Line169_read 20) \<and> touches (Line169_read 20) = [Total_wait_time] \<and>
   unguarded (Line169_write 20 0) \<and> touches (Line169_write 20 0) = [Total_wait_time] \<and>
   unguarded (Line170_read 20) \<and> touches (Line170_read 20) = [Rate_limit_hits] \<and>
   unguarded (Line170_write 20 0) \<and> touches (Line170_write 20 0) = [Rate_limit_hits] \<and>
   progress (run_schedule [0, 0, 0, 1, 1, 1] ([start_wait (\<lambda>i. (15, 15)) 50, start_wait (\<lambda>i. (15, 15)) 50], (record_request 0 100 (record_request 0 100 (init ''claude'' 2 1000 10000 1000000))))) =
     [(Returned False, 0, []), (Returned False, 0, [])] \<and>
   rate_limit_hits (snd (run_schedule [0, 0, 0, 1, 1, 1] ([start_wait (\<lambda>i. (15, 15)) 50, start_wait (\<lambda>i. (15, 15)) 50], (record_request 0 100 (record_request 0 100 (init ''claude'' 2 1000 10000 1000000)))))) = 2 \<and>
   progress (run_schedule [0, 1, 0, 1, 0, 1] ([start_wait (\<lambda>i. (15, 15)) 50, start_wait (\<lambda>i. (15, 15)) 50], (record_request 0 100 (record_request 0 100 (init ''claude'' 2 1000 10000 1000000))))) =
     [(Returned False, 0, []), (Returned False, 0, [])] \<and>
   rate_limit_hits (snd (run_schedule [0, 1, 0, 1, 0, 1] ([start_wait (\<lambda>i. (15, 15)) 50, start_wait (\<lambda>i. (15, 15)) 50], (record_request 0 100 (record_request 0 100 (init ''claude'' 2 1000 10000 1000000)))))) = 1"
proof -
  note ev = check_rate_limit_def clean_old_entries_def record_request_def init_def
    sum_tokens_def start_wait_def run_schedule_def progress_def unguarded_def
  have a: "schedule_trace [0, 0, 0] ([start_wait (\<lambda>i. (15, 15)) 50], (record_request 0 100 (record_request 0 100 (init ''claude'' 2 1000 10000 1000000)))) =
     [(0, Line159), (0, Line165_read), (0, Line165_write 0)]"
    by (simp add: ev)
  have b: "holds_lock Line159 \<and>
     unguarded Line165_read \<and> touches Line165_read = [Rate_limit_hits] \<and>
     unguarded (Line165_write 0) \<and> touches (Line165_write 0) = [Rate_limit_hits]"
    by (simp add: unguarded_def)
  have c: "progress (run_schedule [0, 0, 0] ([start_wait (\<lambda>i. (15, 15)) 50], (record_request 0 100 (record_request 0 100 (init ''claude'' 2 1000 10000 1000000))))) = [(Returned False, 0, [])]"
    by (simp add: ev)
  have d: "wait_if_needed (\<lambda>i. (15, 15)) 50 (record_request 0 100 (record_request 0 100 (init ''claude'' 2 1000 10000 1000000))) =
     Some (Inr False, snd (run_schedule [0, 0, 0] ([start_wait (\<lambda>i. (15, 15)) 50], (record_request 0 100 (record_request 0 100 (init ''claude'' 2 1000 10000 1000000))))), [])"
    unfolding wait_if_needed_def
    by (subst wait_if_needed_loop.simps) (simp add: ev)
  have e: "schedule_trace [0, 0, 0, 0, 0, 0] ([start_wait (\<lambda>i. (40, 40)) 50], (record_request 0 100 (record_request 0 100 (init ''claude'' 2 1000 10000 1000000)))) =
     [(0, Line159), (0, Line169_read 20), (0, Line169_write 20 0),
      (0, Line170_read 20), (0, Line170_write 20 0), (0, Line171 20)]"
    by (simp add: ev)
  have f: "unguarded (Line169_read 20) \<and> touches (Line169_read 20) = [Total_wait_time] \<and>
     unguarded (Line169_write 20 0) \<and> touches (Line169_write 20 0) = [Total_wait_time] \<and>
     unguarded (Line170_read 20) \<and> touches (Line170_read 20) = [Rate_limit_hits] \<and>
     unguarded (Line170_write 20 0) \<and> touches (Line170_write 20 0) = [Rate_limit_hits]"
    by (simp add: unguarded_def)
  have g: "progress (run_schedule [0, 0, 0, 1, 1, 1] ([start_wait (\<lambda>i. (15, 15)) 50, start_wait (\<lambda>i. (15, 15)) 50], (record_request 0 100 (record_request 0 100 (init ''claude'' 2 1000 10000 1000000))))) =
       [(Returned False, 0, []), (Returned False, 0, [])] \<and>
     rate_limit_hits (snd (run_schedule [0, 0, 0, 1, 1, 1] ([start_wait (\<lambda>i. (15, 15)) 50, start_wait (\<lambda>i. (15, 15)) 50], (record_request 0 100 (record_request 0 100 (init ''claude'' 2 1000 10000 1000000)))))) = 2"
    by (simp add: ev)
  have h: "progress (run_schedule [0, 1, 0, 1, 0, 1] ([start_wait (\<lambda>i. (15, 15)) 50, start_wait (\<lambda>i. (15, 15)) 50], (record_request 0 100 (record_request 0 100 (init ''claude'' 2 1000 10000 1000000))))) =
       [(Returned False, 0, []), (Returned False, 0, [])] \<and>
     rate_limit_hits (snd (run_schedule [0, 1, 0, 1, 0, 1] ([start_wait (\<lambda>i. (15, 15)) 50, start_wait (\<lambda>i. (15, 15)) 50], (record_request 0 100 (record_request 0 100 (init ''claude'' 2 1000 10000 1000000)))))) = 1"
    by (simp add: ev)
  from a b c d e f g h show ?thesis by blast
qed

end
